theory Spec2Isabelle
  imports
    Main
    "HOL-Library.Char_ord"
    "HOL-Library.List_Lexorder"
    "HOL-Library.Product_Lexorder"
begin

section \<open>The incident table\<close>

text \<open>
  \<^verbatim>\<open>app.py\<close> loads \<^verbatim>\<open>cleaned_security_incidents.csv\<close> into the data frame
  \<^verbatim>\<open>df\<close>, parses the column \<^verbatim>\<open>date\<close>, derives \<^verbatim>\<open>year\<close> from it and replaces a
  missing \<^verbatim>\<open>Region\<close> by \<^verbatim>\<open>"Unknown"\<close>. A row of the frame is a record with the
  columns the callback reads. The two columns the callback tests with \<^verbatim>\<open>notna()\<close> are
  optional; every other column holds a value (a date is year, month, day).
\<close>

type_synonym timestamp = "int \<times> nat \<times> nat"

record incident =
  incident_id :: nat
  date :: timestamp
  country :: string
  region :: string
  means_of_attack :: "string option"
  attack_context :: "string option"
  actor_type :: string
  total_casualties :: int
  total_affected :: int

type_synonym frame = "incident list"

text \<open>\<^verbatim>\<open>df["year"] = df["date"].dt.year\<close>\<close>

definition year :: "incident \<Rightarrow> int" where
  "year r = fst (date r)"

text \<open>
  \<^verbatim>\<open>dt.to_period("M")\<close> keeps year and month; \<^verbatim>\<open>dt.to_timestamp()\<close> of a monthly
  period is the first day of that month.
\<close>

definition to_period_M :: "timestamp \<Rightarrow> int \<times> nat" where
  "to_period_M d = (fst d, fst (snd d))"

definition to_timestamp :: "int \<times> nat \<Rightarrow> timestamp" where
  "to_timestamp p = (fst p, snd p, 1)"

section \<open>What the callback uses of Python and pandas\<close>

datatype py_error = IndexError | ValueError | KeyError

text \<open>
  Two behaviours of the libraries are not fixed by \<^verbatim>\<open>app.py\<close>: the default of
  \<^verbatim>\<open>groupby(observed=...)\<close> for a categorical key (\<^verbatim>\<open>False\<close> up to pandas 2,
  \<^verbatim>\<open>True\<close> from pandas 3), and the order in which \<^verbatim>\<open>sort_values\<close> leaves rows with
  equal keys: its default \<^verbatim>\<open>kind="quicksort"\<close> is numpy's quicksort argsort, which
  numpy documents as not stable and which only promises a sorting permutation. Both are
  parameters of the model; \<open>is_argsort\<close> says what every such argsort guarantees.
\<close>

record pandas_env =
  observed :: bool
  argsort :: "nat list \<Rightarrow> nat list"

definition is_argsort :: "(nat list \<Rightarrow> nat list) \<Rightarrow> bool" where
  "is_argsort f \<longleftrightarrow>
     (\<forall>xs. distinct (f xs) \<and> set (f xs) = {0..<length xs} \<and> sorted (map (\<lambda>i. xs ! i) (f xs)))"

text \<open>\<^verbatim>\<open>if region:\<close> a dropdown value is \<^verbatim>\<open>None\<close> or a string; both \<^verbatim>\<open>None\<close> and
  \<^verbatim>\<open>""\<close> are falsy.\<close>

fun truthy :: "string option \<Rightarrow> bool" where
  "truthy None = False"
| "truthy (Some s) = (s \<noteq> [])"

text \<open>\<^verbatim>\<open>Series.max()\<close>: NaN (here \<open>None\<close>) on an empty series.\<close>

definition series_max :: "int list \<Rightarrow> int option" where
  "series_max xs = (case xs of [] \<Rightarrow> None | x # ys \<Rightarrow> Some (fold max ys x))"

text \<open>Comparisons of a number with NaN are false.\<close>

fun le_nan :: "int \<Rightarrow> int option \<Rightarrow> bool" where
  "le_nan b None = False"
| "le_nan b (Some m) = (b \<le> m)"

text \<open>\<^verbatim>\<open>xs[:k]\<close>: a negative stop counts from the end.\<close>

definition slice_to :: "'a list \<Rightarrow> int \<Rightarrow> 'a list" where
  "slice_to xs k = (if k < 0 then take (nat (int (length xs) + k)) xs else take (nat k) xs)"

text \<open>\<^verbatim>\<open>bins.searchsorted(x, side="left")\<close> on ascending bins: how many edges lie
  strictly below \<open>x\<close>.\<close>

definition searchsorted_left :: "int list \<Rightarrow> int \<Rightarrow> nat" where
  "searchsorted_left edges x = length (takeWhile (\<lambda>b. b < x) edges)"

text \<open>
  \<^verbatim>\<open>pd.cut(x, bins=edges, labels=labs, include_lowest=True)\<close> with a list of edges and
  a list of labels (\<^verbatim>\<open>right=True\<close>, \<^verbatim>\<open>duplicates="raise"\<close>, \<^verbatim>\<open>ordered=True\<close>): the
  edges must increase and be distinct; a value equal to the first edge goes to the first
  interval (\<^verbatim>\<open>ids[x == bins[0]] = 1\<close>, which needs a first edge); the labels must be
  distinct and one fewer than the edges. The result is the category code of each value,
  NaN (\<open>None\<close>) for a value outside every interval; the categories are the labels, in
  their order.
\<close>

definition cut_code :: "int list \<Rightarrow> int \<Rightarrow> nat option" where
  "cut_code edges v =
     (let i = (if v = hd edges then 1 else searchsorted_left edges v)
      in if i = length edges \<or> i = 0 then None else Some (i - 1))"

definition pd_cut :: "int list \<Rightarrow> int list \<Rightarrow> string list \<Rightarrow> py_error + nat option list" where
  "pd_cut x edges labs =
     (if \<not> sorted edges then Inl ValueError
      else if \<not> distinct edges \<and> length edges \<noteq> 2 then Inl ValueError
      else if edges = [] then Inl IndexError
      else if \<not> distinct labs then Inl ValueError
      else if int (length labs) \<noteq> int (length edges) - 1 then Inl ValueError
      else Inr (map (cut_code edges) x))"

text \<open>
  \<^verbatim>\<open>groupby(keys)\<close> with the defaults \<^verbatim>\<open>sort=True, dropna=True\<close>: the groups are the
  distinct keys in ascending order, and a row whose key has a missing part belongs to no
  group. \<^verbatim>\<open>.size()\<close> counts the rows of a group; \<^verbatim>\<open>.agg\<close> summarises them.
\<close>

definition group_keys :: "('r \<Rightarrow> 'k::linorder option) \<Rightarrow> 'r list \<Rightarrow> 'k list" where
  "group_keys key rows = sort (remdups (List.map_filter key rows))"

definition group_rows :: "('r \<Rightarrow> 'k option) \<Rightarrow> 'r list \<Rightarrow> 'k \<Rightarrow> 'r list" where
  "group_rows key rows k = filter (\<lambda>r. key r = Some k) rows"

definition groupby_agg :: "('r \<Rightarrow> 'k::linorder option) \<Rightarrow> ('r list \<Rightarrow> 'v) \<Rightarrow> 'r list \<Rightarrow> ('k \<times> 'v) list" where
  "groupby_agg key f rows = map (\<lambda>k. (k, f (group_rows key rows k))) (group_keys key rows)"

definition groupby_size :: "('r \<Rightarrow> 'k::linorder option) \<Rightarrow> 'r list \<Rightarrow> ('k \<times> nat) list" where
  "groupby_size key rows = groupby_agg key length rows"

text \<open>
  With a categorical key and \<^verbatim>\<open>observed=False\<close> the result has a row for every
  category and every value of the other key, with count 0 where no row falls.
\<close>

definition groupby_size_unobserved ::
  "nat \<Rightarrow> ('r \<Rightarrow> nat option) \<Rightarrow> ('r \<Rightarrow> 'k::linorder) \<Rightarrow> 'r list \<Rightarrow> ((nat \<times> 'k) \<times> nat) list" where
  "groupby_size_unobserved ncat code key rows =
     map (\<lambda>k. (k, length (filter (\<lambda>r. code r = Some (fst k) \<and> key r = snd k) rows)))
       (List.product [0..<ncat] (sort (remdups (map key rows))))"

text \<open>
  \<^verbatim>\<open>sort_values(by=..., ascending=False)\<close> goes through pandas' \<^verbatim>\<open>nargsort\<close>: the keys
  and their positions are reversed, argsorted ascending, and the resulting indexer is
  reversed again.
\<close>

definition nargsort_desc :: "(nat list \<Rightarrow> nat list) \<Rightarrow> nat list \<Rightarrow> nat list" where
  "nargsort_desc asort items =
     (let idx = [0..<length items];
          non_nans = rev items;
          non_nan_idx = rev idx;
          indexer = map (\<lambda>j. non_nan_idx ! j) (asort non_nans)
      in rev indexer)"

definition sort_values_desc :: "(nat list \<Rightarrow> nat list) \<Rightarrow> ('a \<Rightarrow> nat) \<Rightarrow> 'a list \<Rightarrow> 'a list" where
  "sort_values_desc asort col rows = map (\<lambda>i. rows ! i) (nargsort_desc asort (map col rows))"

text \<open>
  Two argsorts that \<open>is_argsort\<close> admits: the stable one (numpy's \<^verbatim>\<open>kind="stable"\<close>,
  equal keys in their order), and one that lists equal keys in the opposite order.
\<close>

definition stable_argsort :: "nat list \<Rightarrow> nat list" where
  "stable_argsort xs = sort_key (\<lambda>i. xs ! i) [0..<length xs]"


text \<open>\<^verbatim>\<open>.iloc[0]\<close> raises IndexError on an empty frame.\<close>

definition iloc0 :: "'a list \<Rightarrow> py_error + 'a" where
  "iloc0 rows = (case rows of [] \<Rightarrow> Inl IndexError | r # _ \<Rightarrow> Inr r)"

section \<open>The callback \<^verbatim>\<open>update_visuals\<close>\<close>

text \<open>\<^verbatim>\<open>dff = df.copy()\<close>, then \<^verbatim>\<open>if region: dff = dff[dff["Region"] == region]\<close>\<close>

definition region_filter :: "frame \<Rightarrow> string option \<Rightarrow> frame" where
  "region_filter df sel = (if truthy sel then filter (\<lambda>r. Some (region r) = sel) df else df)"

subsection \<open>Casualty distribution\<close>

text \<open>\<^verbatim>\<open>sb_data = dff[dff["total_casualties"] > 0].copy()\<close>\<close>

definition sb_data :: "frame \<Rightarrow> frame" where
  "sb_data dff = filter (\<lambda>r. total_casualties r > 0) dff"

definition max_cas :: "frame \<Rightarrow> int option" where
  "max_cas dff = series_max (map total_casualties (sb_data dff))"

definition ladder :: "int list" where
  "ladder = [0, 1, 5, 10, 20, 50, 100, 200, 500, 1000]"

text \<open>
  \<^verbatim>\<open>bins = [b for b in bins if b <= max_cas]\<close>, then
  \<^verbatim>\<open>if bins and bins[-1] < max_cas: bins.append(max_cas + 1)\<close>. With \<^verbatim>\<open>max_cas\<close> NaN no
  edge is kept and nothing is appended.
\<close>

definition bins :: "int option \<Rightarrow> int list" where
  "bins m =
     (let bs = filter (\<lambda>b. le_nan b m) ladder
      in case m of
           None \<Rightarrow> bs
         | Some mc \<Rightarrow> if bs \<noteq> [] \<and> last bs < mc then bs @ [mc + 1] else bs)"

text \<open>The labels are UTF-8 strings; the dash in them is U+2013.\<close>

definition en_dash :: string where
  "en_dash = [CHR 0xE2, CHR 0x80, CHR 0x93]"

definition all_labels :: "string list" where
  "all_labels =
     [''1'', ''2'' @ en_dash @ ''5'', ''6'' @ en_dash @ ''10'', ''11'' @ en_dash @ ''20'',
      ''21'' @ en_dash @ ''50'', ''51'' @ en_dash @ ''100'', ''101'' @ en_dash @ ''200'',
      ''201'' @ en_dash @ ''500'', ''501'' @ en_dash @ ''1000'', ''1000+'']"

text \<open>\<^verbatim>\<open>labels = labels[:len(bins)-1]\<close>\<close>

definition labels :: "int list \<Rightarrow> string list" where
  "labels bs = slice_to all_labels (int (length bs) - 1)"

text \<open>
  \<^verbatim>\<open>sb_data["casualty_range"] = pd.cut(sb_data["total_casualties"], bins=bins,
  labels=labels, include_lowest=True)\<close>: each row of \<^verbatim>\<open>sb_data\<close> with the code of its
  category.
\<close>

definition casualty_range :: "frame \<Rightarrow> py_error + (incident \<times> nat option) list" where
  "casualty_range dff =
     (let sb = sb_data dff; bs = bins (max_cas dff)
      in case pd_cut (map total_casualties sb) bs (labels bs) of
           Inl e \<Rightarrow> Inl e
         | Inr codes \<Rightarrow> Inr (zip sb codes))"

text \<open>
  \<^verbatim>\<open>sb_grouped = sb_data.groupby(["casualty_range", "Region"]).size()
  .reset_index(name="count")\<close>. The categorical key sorts by its code; the rows of the
  result carry the label.
\<close>

definition group_buckets ::
  "pandas_env \<Rightarrow> string list \<Rightarrow> (incident \<times> nat option) list \<Rightarrow> ((string \<times> string) \<times> nat) list" where
  "group_buckets env ls bucketed =
     (let grouped =
            (if observed env
             then groupby_size (\<lambda>rc. map_option (\<lambda>c. (c, region (fst rc))) (snd rc)) bucketed
             else groupby_size_unobserved (length ls) snd (\<lambda>rc. region (fst rc)) bucketed)
      in map (\<lambda>g. ((ls ! fst (fst g), snd (fst g)), snd g)) grouped)"

definition sb_grouped :: "pandas_env \<Rightarrow> frame \<Rightarrow> py_error + ((string \<times> string) \<times> nat) list" where
  "sb_grouped env dff =
     (case casualty_range dff of
        Inl e \<Rightarrow> Inl e
      | Inr bucketed \<Rightarrow> Inr (group_buckets env (labels (bins (max_cas dff))) bucketed))"

subsection \<open>The other aggregates\<close>

text \<open>
  \<^verbatim>\<open>treedata = dff[dff["Means of attack"].notna() & dff["Attack context"].notna()]\<close>
  and \<^verbatim>\<open>treedata.groupby(["Means of attack", "Attack context"]).size()\<close>
\<close>

definition treedata :: "frame \<Rightarrow> frame" where
  "treedata dff = filter (\<lambda>r. means_of_attack r \<noteq> None \<and> attack_context r \<noteq> None) dff"

definition taxonomy_key :: "incident \<Rightarrow> (string \<times> string) option" where
  "taxonomy_key r =
     (case means_of_attack r of
        None \<Rightarrow> None
      | Some m \<Rightarrow> (case attack_context r of None \<Rightarrow> None | Some c \<Rightarrow> Some (m, c)))"

definition tree_grouped :: "frame \<Rightarrow> ((string \<times> string) \<times> nat) list" where
  "tree_grouped dff = groupby_size taxonomy_key (treedata dff)"

text \<open>\<^verbatim>\<open>heatdata = dff.groupby("Country").size().reset_index(name="count")\<close>\<close>

definition heatdata :: "frame \<Rightarrow> (string \<times> nat) list" where
  "heatdata dff = groupby_size (\<lambda>r. Some (country r)) dff"

text \<open>
  \<^verbatim>\<open>trend = dff.groupby(dff["date"].dt.to_period("M")).agg({"Incident ID": "count",
  "total_casualties": "sum"}).reset_index()\<close>, then
  \<^verbatim>\<open>trend["date"] = trend["date"].dt.to_timestamp()\<close>
\<close>

definition trend :: "frame \<Rightarrow> (timestamp \<times> nat \<times> int) list" where
  "trend dff =
     map (\<lambda>g. (to_timestamp (fst g), snd g))
       (groupby_agg (\<lambda>r. Some (to_period_M (date r)))
          (\<lambda>rows. (length rows, sum_list (map total_casualties rows))) dff)"

text \<open>\<^verbatim>\<open>yearwise = dff.groupby(["year", "Region"]).agg({"Incident ID": "count"})\<close>\<close>

definition yearwise :: "frame \<Rightarrow> ((int \<times> string) \<times> nat) list" where
  "yearwise dff = groupby_agg (\<lambda>r. Some (year r, region r)) length dff"

text \<open>
  \<^verbatim>\<open>actor = dff.groupby("Actor type").agg({"Total affected": "sum",
  "Incident ID": "count"})\<close>
\<close>

definition actor :: "frame \<Rightarrow> (string \<times> int \<times> nat) list" where
  "actor dff =
     groupby_agg (\<lambda>r. Some (actor_type r))
       (\<lambda>rows. (sum_list (map total_affected rows), length rows)) dff"

subsection \<open>The insight\<close>

text \<open>
  \<^verbatim>\<open>top_country = heatdata.sort_values(by="count", ascending=False).iloc[0]["Country"]\<close>
\<close>

definition top_country :: "pandas_env \<Rightarrow> (string \<times> nat) list \<Rightarrow> py_error + string" where
  "top_country env heat =
     (case iloc0 (sort_values_desc (argsort env) snd heat) of
        Inl e \<Rightarrow> Inl e
      | Inr row \<Rightarrow> Inr (fst row))"

definition brain :: string where
  "brain = [CHR 0xF0, CHR 0x9F, CHR 0xA7, CHR 0xA0]"

definition narration_of :: "string \<Rightarrow> string" where
  "narration_of c =
     brain @ '' Personal Insight: '' @ c @ '' currently ranks highest in reported incidents.''"

subsection \<open>The whole callback\<close>

text \<open>
  The callback returns six figures and the narration. Drawing a figure from its frame is
  the plotting library's work; a figure is represented by the frame it is drawn from.
  An exception raised by a statement ends the callback there.
\<close>

record visuals =
  fig_sb :: "((string \<times> string) \<times> nat) list"
  fig_tree :: "((string \<times> string) \<times> nat) list"
  fig_map :: "(string \<times> nat) list"
  fig_trend :: "(timestamp \<times> nat \<times> int) list"
  fig_anim :: "((int \<times> string) \<times> nat) list"
  fig_actor :: "(string \<times> int \<times> nat) list"
  narration :: string

definition update_visuals :: "pandas_env \<Rightarrow> frame \<Rightarrow> string option \<Rightarrow> py_error + visuals" where
  "update_visuals env df sel =
     (let dff = region_filter df sel
      in case sb_grouped env dff of
           Inl e \<Rightarrow> Inl e
         | Inr sbg \<Rightarrow>
             (case top_country env (heatdata dff) of
                Inl e \<Rightarrow> Inl e
              | Inr c \<Rightarrow>
                  Inr \<lparr>fig_sb = sbg, fig_tree = tree_grouped dff, fig_map = heatdata dff,
                       fig_trend = trend dff, fig_anim = yearwise dff, fig_actor = actor dff,
                       narration = narration_of c\<rparr>))"

section \<open>Frames as objects\<close>

text \<open>
  The definitions above treat a frame as a value, since every pandas operation the
  callback applies to \<^verbatim>\<open>df\<close> and \<^verbatim>\<open>dff\<close> returns a new object. To ask whether the
  callback changes the loaded table, the frames are put on a heap: \<^verbatim>\<open>df.copy()\<close> and
  \<^verbatim>\<open>dff[mask]\<close> allocate a new object, and
  \<^verbatim>\<open>sb_data["casualty_range"] = ...\<close> updates the object \<^verbatim>\<open>sb_data\<close> refers to in
  place. An object holds the rows and, once it is set, the categorical column (the
  categories and the code of each row).
\<close>

record table =
  t_rows :: frame
  t_casualty_range :: "(string list \<times> nat option list) option"

record heap =
  cells :: "nat \<Rightarrow> table"
  next_ref :: nat

definition alloc :: "table \<Rightarrow> heap \<Rightarrow> nat \<times> heap" where
  "alloc t h = (next_ref h, h\<lparr>cells := (cells h)(next_ref h := t), next_ref := Suc (next_ref h)\<rparr>)"

text \<open>\<^verbatim>\<open>DataFrame.copy()\<close>\<close>

definition frame_copy :: "nat \<Rightarrow> heap \<Rightarrow> nat \<times> heap" where
  "frame_copy p h = alloc (cells h p) h"

text \<open>\<^verbatim>\<open>frame[mask]\<close>: a new object with the selected rows of every column.\<close>

definition frame_select :: "(incident \<Rightarrow> bool) \<Rightarrow> nat \<Rightarrow> heap \<Rightarrow> nat \<times> heap" where
  "frame_select P p h =
     (let t = cells h p
      in alloc \<lparr>t_rows = filter P (t_rows t),
                t_casualty_range =
                  map_option (\<lambda>col. (fst col, map snd (filter (\<lambda>rc. P (fst rc)) (zip (t_rows t) (snd col)))))
                    (t_casualty_range t)\<rparr> h)"

text \<open>\<^verbatim>\<open>frame["casualty_range"] = col\<close>: in place.\<close>

definition frame_setitem :: "nat \<Rightarrow> string list \<times> nat option list \<Rightarrow> heap \<Rightarrow> heap" where
  "frame_setitem p col h = h\<lparr>cells := (cells h)(p := (cells h p)\<lparr>t_casualty_range := Some col\<rparr>)\<rparr>"

text \<open>
  The callback, statement by statement, with \<^verbatim>\<open>df\<close> the reference to the loaded table.
  Grouping by a column the object does not have raises KeyError.
\<close>

definition update_visuals_heap ::
  "pandas_env \<Rightarrow> nat \<Rightarrow> string option \<Rightarrow> heap \<Rightarrow> (py_error + visuals) \<times> heap" where
  "update_visuals_heap env df sel h =
     (let (dff0, h1) = frame_copy df h;
          (dff, h2) = (if truthy sel then frame_select (\<lambda>r. Some (region r) = sel) dff0 h1
                       else (dff0, h1));
          (pos, h3) = frame_select (\<lambda>r. total_casualties r > 0) dff h2;
          (sb, h4) = frame_copy pos h3;
          cas = map total_casualties (t_rows (cells h4 sb));
          bs = bins (series_max cas);
          ls = labels bs
      in case pd_cut cas bs ls of
           Inl e \<Rightarrow> (Inl e, h4)
         | Inr codes \<Rightarrow>
             let h5 = frame_setitem sb (ls, codes) h4;
                 rows = t_rows (cells h5 dff)
             in (case t_casualty_range (cells h5 sb) of
                   None \<Rightarrow> (Inl KeyError, h5)
                 | Some col \<Rightarrow>
                     (case top_country env (heatdata rows) of
                        Inl e \<Rightarrow> (Inl e, h5)
                      | Inr c \<Rightarrow>
                          (Inr \<lparr>fig_sb = group_buckets env (fst col) (zip (t_rows (cells h5 sb)) (snd col)),
                                fig_tree = tree_grouped rows, fig_map = heatdata rows,
                                fig_trend = trend rows, fig_anim = yearwise rows,
                                fig_actor = actor rows, narration = narration_of c\<rparr>, h5))))"

section \<open>Example inputs\<close>

text \<open>
  A row with a given country, region and casualty count, the behaviour of pandas 2 with
  a stable sort, and a heap holding one loaded table at reference 0.
\<close>

definition example_row :: "string \<Rightarrow> string \<Rightarrow> int \<Rightarrow> incident" where
  "example_row c reg n =
     \<lparr>incident_id = 1, date = (2024, 5, 17), country = c, region = reg,
      means_of_attack = Some ''Shooting'', attack_context = None, actor_type = ''Unknown'',
      total_casualties = n, total_affected = n\<rparr>"

definition example_env :: pandas_env where
  "example_env = \<lparr>observed = False, argsort = stable_argsort\<rparr>"

definition example_heap :: heap where
  "example_heap =
     \<lparr>cells = (\<lambda>_. \<lparr>t_rows = [example_row ''Italy'' ''X'' 3], t_casualty_range = None\<rparr>),
      next_ref = 1\<rparr>"

section \<open>Facts about the pandas operations\<close>

subsection \<open>Grouping\<close>

lemma group_keys_set: "set (group_keys key rows) = {k. \<exists>r\<in>set rows. key r = Some k}"
  by (force simp: group_keys_def List.map_filter_def)

lemma group_keys_distinct: "distinct (group_keys key rows)"
  by (simp add: group_keys_def)



lemma groupby_agg_keys: "map fst (groupby_agg key f rows) = group_keys key rows"
  by (simp add: groupby_agg_def comp_def)

lemma groupby_agg_mem:
  "(k, v) \<in> set (groupby_agg key f rows) \<longleftrightarrow>
     (\<exists>r\<in>set rows. key r = Some k) \<and> v = f (group_rows key rows k)"
  using group_keys_set [of key rows] by (auto simp: groupby_agg_def)

lemma indicator_total:
  "distinct ks \<Longrightarrow> sum_list (map (\<lambda>k'. if k' = k then 1 else 0) ks) = (if k \<in> set ks then 1 else (0::nat))"
  by (induction ks) auto

lemma count_partition:
  "distinct ks \<Longrightarrow>
     sum_list (map (\<lambda>k. length (filter (\<lambda>r. g r = Some k) rows)) ks) =
     length (filter (\<lambda>r. \<exists>k\<in>set ks. g r = Some k) rows)"
proof (induction rows)
  case Nil
  then show ?case by simp
next
  case (Cons r rows)
  show ?case
  proof (cases "\<exists>k\<in>set ks. g r = Some k")
    case True
    then obtain k where k: "k \<in> set ks" "g r = Some k" by blast
    have "sum_list (map (\<lambda>k'. length (filter (\<lambda>r. g r = Some k') (r # rows))) ks) =
          sum_list (map (\<lambda>k'. (if k' = k then 1 else 0) + length (filter (\<lambda>r. g r = Some k') rows)) ks)"
      using k by (intro arg_cong [where f = sum_list] map_cong) auto
    also have "\<dots> = sum_list (map (\<lambda>k'. if k' = k then 1 else 0) ks) +
                     sum_list (map (\<lambda>k'. length (filter (\<lambda>r. g r = Some k') rows)) ks)"
      by (simp add: sum_list_addf)
    also have "sum_list (map (\<lambda>k'. if k' = k then 1 else 0) ks) = (1::nat)"
      using Cons.prems k(1) by (simp add: indicator_total)
    finally show ?thesis using Cons k by auto
  next
    case False
    then have "sum_list (map (\<lambda>k'. length (filter (\<lambda>r. g r = Some k') (r # rows))) ks) =
               sum_list (map (\<lambda>k'. length (filter (\<lambda>r. g r = Some k') rows)) ks)"
      by (intro arg_cong [where f = sum_list] map_cong) auto
    then show ?thesis using Cons False by auto
  qed
qed

lemma groupby_size_total:
  "sum_list (map snd (groupby_size key rows)) = length (filter (\<lambda>r. key r \<noteq> None) rows)"
proof -
  have "sum_list (map snd (groupby_size key rows)) =
        sum_list (map (\<lambda>k. length (filter (\<lambda>r. key r = Some k) rows)) (group_keys key rows))"
    by (simp add: groupby_size_def groupby_agg_def group_rows_def comp_def)
  also have "\<dots> = length (filter (\<lambda>r. \<exists>k\<in>set (group_keys key rows). key r = Some k) rows)"
    by (rule count_partition) (rule group_keys_distinct)
  also have "\<dots> = length (filter (\<lambda>r. key r \<noteq> None) rows)"
    by (intro arg_cong [where f = length] filter_cong) (auto simp: group_keys_set)
  finally show ?thesis .
qed

subsection \<open>Bin edges and labels\<close>

lemma series_max_Nil: "series_max [] = None"
  by (simp add: series_max_def)

lemma series_max_Max:
  assumes "xs \<noteq> []"
  shows "series_max xs = Some (Max (set xs))"
proof (cases xs)
  case Nil
  then show ?thesis using assms by simp
next
  case (Cons a list)
  have "fold max list a = Max (set (a # list))" by (rule Max.set_eq_fold [symmetric])
  then show ?thesis using Cons by (simp add: series_max_def)
qed

lemma max_cas_None: "sb_data dff = [] \<Longrightarrow> max_cas dff = None"
  by (simp add: max_cas_def series_max_Nil)

lemma max_cas_Some:
  assumes "sb_data dff \<noteq> []"
  shows "\<exists>m. max_cas dff = Some m \<and> 1 \<le> m \<and>
              (\<forall>r\<in>set (sb_data dff). total_casualties r \<le> m) \<and>
              (\<exists>r\<in>set (sb_data dff). total_casualties r = m)"
proof -
  let ?xs = "map total_casualties (sb_data dff)"
  have ne: "?xs \<noteq> []" using assms by simp
  then have m: "max_cas dff = Some (Max (set ?xs))"
    unfolding max_cas_def by (rule series_max_Max)
  have "Max (set ?xs) \<in> set ?xs" using ne by (intro Max_in) auto
  then obtain r where r: "r \<in> set (sb_data dff)" "total_casualties r = Max (set ?xs)"
    by auto
  then have "0 < total_casualties r" by (simp add: sb_data_def)
  moreover have "\<forall>r\<in>set (sb_data dff). total_casualties r \<le> Max (set ?xs)"
    by (auto intro!: Max_ge)
  ultimately show ?thesis using m r by auto
qed

lemma ladder_strict: "sorted_wrt (<) ladder"
  by (simp add: ladder_def)

lemma bins_None: "bins None = []"
  by (simp add: bins_def)

lemma bins_strict: "sorted_wrt (<) (bins m)"
proof (cases m)
  case None
  then show ?thesis by (simp add: bins_None)
next
  case (Some mc)
  let ?bs = "filter (\<lambda>b. b \<le> mc) ladder"
  have "sorted_wrt (<) ?bs" using ladder_strict by (rule sorted_wrt_filter)
  moreover have "\<forall>b\<in>set ?bs. b < mc + 1" by auto
  ultimately have "sorted_wrt (<) (?bs @ [mc + 1])" by (simp add: sorted_wrt_append)
  with \<open>sorted_wrt (<) ?bs\<close> show ?thesis using Some by (simp add: bins_def Let_def)
qed

lemma bins_hd: "0 \<le> mc \<Longrightarrow> hd (bins (Some mc)) = 0"
  by (simp add: bins_def ladder_def Let_def)

lemma bins_length_ge: "1 \<le> mc \<Longrightarrow> 2 \<le> length (bins (Some mc))"
  by (simp add: bins_def ladder_def Let_def)

lemma bins_length_le: "length (bins m) \<le> 11"
proof -
  have "length (filter (\<lambda>b. le_nan b m) ladder) \<le> length ladder" by (rule length_filter_le)
  also have "\<dots> = 10" by (simp add: ladder_def)
  finally show ?thesis by (cases m) (auto simp: bins_def Let_def)
qed

lemma strict_last_Max: "sorted_wrt (<) (xs::int list) \<Longrightarrow> xs \<noteq> [] \<Longrightarrow> \<forall>x\<in>set xs. x \<le> last xs"
  by (induction xs) (auto simp: less_imp_le)

lemma bins_last:
  assumes "0 \<le> mc"
  shows "last (bins (Some mc)) = (if mc \<in> set ladder then mc else mc + 1)"
proof -
  let ?bs = "filter (\<lambda>b. b \<le> mc) ladder"
  have ne: "?bs \<noteq> []" using assms by (simp add: ladder_def)
  have st: "sorted_wrt (<) ?bs" using ladder_strict by (rule sorted_wrt_filter)
  have le: "last ?bs \<le> mc" using ne last_in_set [of ?bs] by auto
  show ?thesis
  proof (cases "mc \<in> set ladder")
    case True
    then have "mc \<in> set ?bs" by simp
    then have "mc \<le> last ?bs" using strict_last_Max [OF st ne] by blast
    with le have "last ?bs = mc" by simp
    then show ?thesis using True by (simp add: bins_def Let_def)
  next
    case False
    have "last ?bs \<in> set ladder" using ne last_in_set [of ?bs] by auto
    with False le have "last ?bs < mc" by (cases "last ?bs = mc") auto
    then show ?thesis using False ne by (simp add: bins_def Let_def)
  qed
qed

lemma all_labels_distinct: "distinct all_labels"
  by (simp add: all_labels_def en_dash_def)

lemma labels_distinct: "distinct (labels bs)"
  using all_labels_distinct by (simp add: labels_def slice_to_def)

lemma labels_length: "1 \<le> length bs \<Longrightarrow> length bs \<le> 11 \<Longrightarrow> length (labels bs) = length bs - 1"
  by (auto simp: labels_def slice_to_def all_labels_def)

lemma searchsorted_left_bounds:
  assumes "sorted_wrt (<) edges" "edges \<noteq> []" "hd edges < v" "v \<le> last edges"
  shows "0 < searchsorted_left edges v \<and> searchsorted_left edges v < length edges \<and>
         edges ! (searchsorted_left edges v - 1) < v \<and> v \<le> edges ! searchsorted_left edges v"
proof -
  let ?i = "searchsorted_left edges v"
  have pos: "0 < ?i" using assms(2,3) by (cases edges) (auto simp: searchsorted_left_def)
  have "\<not> last edges < v" using assms(4) by simp
  then have "takeWhile (\<lambda>b. b < v) edges \<noteq> edges"
    using assms(2) by (metis last_in_set takeWhile_eq_all_conv)
  then have lt: "?i < length edges"
    unfolding searchsorted_left_def
    by (metis length_takeWhile_le nat_less_le takeWhile_eq_take take_all_iff)
  have ge: "\<not> edges ! ?i < v"
    unfolding searchsorted_left_def using lt nth_length_takeWhile searchsorted_left_def by metis
  have "edges ! (?i - 1) \<in> set (takeWhile (\<lambda>b. b < v) edges)"
    using pos unfolding searchsorted_left_def
    by (metis One_nat_def Suc_pred diff_less lessI nth_mem takeWhile_nth)
  then have "edges ! (?i - 1) < v" by (meson set_takeWhileD)
  with pos lt ge show ?thesis by auto
qed

subsection \<open>Cutting into intervals\<close>

lemma pd_cut_ok:
  assumes "sorted_wrt (<) edges" "edges \<noteq> []" "length labs + 1 = length edges" "distinct labs"
  shows "pd_cut x edges labs = Inr (map (cut_code edges) x)"
proof -
  have "sorted edges" "distinct edges" using assms(1) by (simp_all add: strict_sorted_iff)
  moreover have "int (length labs) = int (length edges) - 1" using assms(3) by simp
  ultimately show ?thesis using assms(2,4) by (simp add: pd_cut_def)
qed

lemma pd_cut_no_edges: "pd_cut x [] labs = Inl IndexError"
  by (simp add: pd_cut_def)

lemma cut_code_inside:
  assumes "sorted_wrt (<) edges" "edges \<noteq> []" "hd edges < v" "v \<le> last edges"
  shows "\<exists>i. cut_code edges v = Some i \<and> i + 1 < length edges \<and>
             edges ! i < v \<and> v \<le> edges ! (i + 1)"
proof -
  let ?i = "searchsorted_left edges v"
  have b: "0 < ?i" "?i < length edges" "edges ! (?i - 1) < v" "v \<le> edges ! ?i"
    using searchsorted_left_bounds [OF assms] by auto
  have "cut_code edges v = Some (?i - 1)"
    using assms(3) b(1,2) by (simp add: cut_code_def Let_def)
  moreover have "?i - 1 + 1 = ?i" using b(1) by simp
  ultimately show ?thesis using b by auto
qed


lemma casualty_range_empty: "sb_data dff = [] \<Longrightarrow> casualty_range dff = Inl IndexError"
  by (simp add: casualty_range_def max_cas_None bins_None pd_cut_no_edges Let_def)

lemma casualty_range_ok:
  assumes "sb_data dff \<noteq> []"
  shows "casualty_range dff =
         Inr (map (\<lambda>r. (r, cut_code (bins (max_cas dff)) (total_casualties r))) (sb_data dff))"
proof -
  obtain m where m: "max_cas dff = Some m" "1 \<le> m" using max_cas_Some [OF assms] by blast
  let ?bs = "bins (max_cas dff)"
  have len: "2 \<le> length ?bs" using m bins_length_ge by simp
  then have ne: "?bs \<noteq> []" by auto
  have "length (labels ?bs) = length ?bs - 1"
    using len bins_length_le [of "max_cas dff"] by (intro labels_length) auto
  then have "length (labels ?bs) + 1 = length ?bs" using len by simp
  then have "pd_cut (map total_casualties (sb_data dff)) ?bs (labels ?bs) =
             Inr (map (cut_code ?bs) (map total_casualties (sb_data dff)))"
    using bins_strict ne labels_distinct by (intro pd_cut_ok) auto
  then show ?thesis
    by (simp add: casualty_range_def Let_def zip_map2 zip_same_conv_map comp_def)
qed

lemma sb_data_bucket:
  assumes "r \<in> set (sb_data dff)"
  shows "\<exists>i. cut_code (bins (max_cas dff)) (total_casualties r) = Some i \<and>
             i < length (labels (bins (max_cas dff))) \<and>
             i + 1 < length (bins (max_cas dff)) \<and>
             bins (max_cas dff) ! i < total_casualties r \<and>
             total_casualties r \<le> bins (max_cas dff) ! (i + 1)"
proof -
  have ne: "sb_data dff \<noteq> []" using assms by auto
  obtain m where m: "max_cas dff = Some m" "1 \<le> m"
    "\<forall>r\<in>set (sb_data dff). total_casualties r \<le> m"
    using max_cas_Some [OF ne] by blast
  let ?bs = "bins (max_cas dff)"
  have len: "2 \<le> length ?bs" using m bins_length_ge by simp
  then have bne: "?bs \<noteq> []" by auto
  have pos: "0 < total_casualties r" using assms by (simp add: sb_data_def)
  have hd: "hd ?bs < total_casualties r" using m pos by (simp add: bins_hd)
  have "total_casualties r \<le> m" using m assms by blast
  also have "m \<le> last ?bs" using m by (simp add: bins_last)
  finally have "total_casualties r \<le> last ?bs" .
  from cut_code_inside [OF bins_strict bne hd this]
  obtain i where i: "cut_code ?bs (total_casualties r) = Some i" "i + 1 < length ?bs"
    "?bs ! i < total_casualties r" "total_casualties r \<le> ?bs ! (i + 1)" by blast
  have "length (labels ?bs) = length ?bs - 1"
    using len bins_length_le [of "max_cas dff"] by (intro labels_length) auto
  then show ?thesis using i by auto
qed

subsection \<open>Sorting by count\<close>

lemma is_argsort_set: "is_argsort f \<Longrightarrow> set (f xs) = {0..<length xs}"
  unfolding is_argsort_def by blast

lemma is_argsort_distinct: "is_argsort f \<Longrightarrow> distinct (f xs)"
  unfolding is_argsort_def by blast


lemma is_argsort_length: "is_argsort f \<Longrightarrow> length (f xs) = length xs"
  using distinct_card [of "f xs"] by (simp add: is_argsort_set is_argsort_distinct)



lemma stable_argsort_ok: "is_argsort stable_argsort"
  by (simp add: is_argsort_def stable_argsort_def)




lemma sort_values_desc_empty:
  assumes "is_argsort asort"
  shows "iloc0 (sort_values_desc asort col []) = Inl IndexError"
proof -
  have "length (asort []) = length ([]::nat list)" using assms by (rule is_argsort_length)
  then have "asort [] = []" by simp
  then show ?thesis by (simp add: sort_values_desc_def nargsort_desc_def iloc0_def)
qed









subsection \<open>The callback on the heap\<close>

lemma frame_copy_eq:
  "frame_copy p h = (next_ref h, h\<lparr>cells := (cells h)(next_ref h := cells h p), next_ref := Suc (next_ref h)\<rparr>)"
  by (simp add: frame_copy_def alloc_def)

lemma frame_select_eq:
  "frame_select P p h =
    (next_ref h, h\<lparr>cells := (cells h)(next_ref h := \<lparr>t_rows = filter P (t_rows (cells h p)),
                t_casualty_range =
                  map_option (\<lambda>col. (fst col, map snd (filter (\<lambda>rc. P (fst rc)) (zip (t_rows (cells h p)) (snd col)))))
                    (t_casualty_range (cells h p))\<rparr>), next_ref := Suc (next_ref h)\<rparr>)"
  by (simp add: frame_select_def alloc_def Let_def)

lemma heap_run_shape:
  assumes "df < next_ref h"
  shows "\<exists>h'. update_visuals_heap env df sel h = (update_visuals env (t_rows (cells h df)) sel, h') \<and>
              cells h' df = cells h df \<and> df < next_ref h'"
  using assms
  by (cases "truthy sel")
     (simp_all add: update_visuals_heap_def update_visuals_def frame_copy_eq frame_select_eq
          frame_setitem_def region_filter_def sb_grouped_def casualty_range_def max_cas_def
          sb_data_def Let_def split: sum.splits)

section \<open>The claims\<close>

text \<open>
  C10. A region selection that is falsy without being \<^verbatim>\<open>None\<close>, the empty string, is
  treated like no selection: the filter returns the whole table and the callback returns
  what it returns for \<^verbatim>\<open>None\<close>. Only a non-empty selection filters, and then it keeps
  exactly the rows of that region.
\<close>
theorem falsy_region_is_no_filter:
  "region_filter df (Some []) = df \<and> region_filter df None = df \<and>
   update_visuals env df (Some []) = update_visuals env df None \<and>
   (s \<noteq> [] \<longrightarrow> region_filter df (Some s) = filter (\<lambda>r. region r = s) df)"
  by (simp add: region_filter_def update_visuals_def)

theorem falsy_region_is_no_filter_witness:
  "''X'' \<noteq> [] \<and>
   region_filter [example_row ''Italy'' ''X'' 3, example_row ''Chad'' ''Y'' 2] (Some ''X'') =
     [example_row ''Italy'' ''X'' 3] \<and>
   update_visuals example_env [example_row ''Italy'' ''X'' 3, example_row ''Chad'' ''Y'' 2] (Some []) =
     update_visuals example_env [example_row ''Italy'' ''X'' 3, example_row ''Chad'' ''Y'' 2] None"
  using falsy_region_is_no_filter
    [of "[example_row ''Italy'' ''X'' 3, example_row ''Chad'' ''Y'' 2]" example_env "''X''"]
  by (simp add: example_row_def)

text \<open>
  C9. Running the callback twice, the second time on the heap the first run left, gives the
  same output both times, which is the output of the value-level callback on the rows of
  the loaded table; and after each run the object \<^verbatim>\<open>df\<close> refers to is what it was.
\<close>
theorem callback_repeatable_and_keeps_table:
  assumes "df < next_ref h"
  shows "\<exists>h1 h2.
           update_visuals_heap env df sel h = (update_visuals env (t_rows (cells h df)) sel, h1) \<and>
           update_visuals_heap env df sel h1 = (update_visuals env (t_rows (cells h df)) sel, h2) \<and>
           cells h1 df = cells h df \<and> cells h2 df = cells h df"
proof -
  obtain h1 where h1: "update_visuals_heap env df sel h = (update_visuals env (t_rows (cells h df)) sel, h1)"
    "cells h1 df = cells h df" "df < next_ref h1"
    using heap_run_shape [OF assms] by blast
  obtain h2 where h2: "update_visuals_heap env df sel h1 = (update_visuals env (t_rows (cells h1 df)) sel, h2)"
    "cells h2 df = cells h1 df"
    using heap_run_shape [OF h1(3)] by blast
  show ?thesis using h1 h2 by simp
qed

theorem callback_repeatable_and_keeps_table_witness:
  "0 < next_ref example_heap \<and>
   (\<exists>h1 h2.
      update_visuals_heap example_env 0 None example_heap =
        (update_visuals example_env [example_row ''Italy'' ''X'' 3] None, h1) \<and>
      update_visuals_heap example_env 0 None h1 =
        (update_visuals example_env [example_row ''Italy'' ''X'' 3] None, h2) \<and>
      cells h1 0 = cells example_heap 0 \<and> cells h2 0 = cells example_heap 0)"
  using callback_repeatable_and_keeps_table [of 0 example_heap example_env None]
  by (simp add: example_heap_def)

lemma groupby_size_unobserved_total:
  "sum_list (map snd (groupby_size_unobserved ncat code key rows)) =
   length (filter (\<lambda>r. \<exists>c<ncat. code r = Some c) rows)"
proof -
  let ?ks = "List.product [0..<ncat] (sort (remdups (map key rows)))"
  let ?g = "\<lambda>r. map_option (\<lambda>c. (c, key r)) (code r)"
  have d: "distinct ?ks" by (simp add: distinct_product)
  have "sum_list (map snd (groupby_size_unobserved ncat code key rows)) =
        sum_list (map (\<lambda>k. length (filter (\<lambda>r. ?g r = Some k) rows)) ?ks)"
    unfolding groupby_size_unobserved_def
    by (simp add: comp_def) (intro arg_cong [where f = sum_list] map_cong refl
        arg_cong [where f = length] filter_cong, auto)
  also have "\<dots> = length (filter (\<lambda>r. \<exists>k\<in>set ?ks. ?g r = Some k) rows)"
    using d by (rule count_partition)
  also have "\<dots> = length (filter (\<lambda>r. \<exists>c<ncat. code r = Some c) rows)"
    by (intro arg_cong [where f = length] filter_cong refl) auto
  finally show ?thesis .
qed

lemma group_buckets_total:
  assumes "\<forall>rc\<in>set bucketed. \<exists>c<length ls. snd rc = Some c"
  shows "sum_list (map snd (group_buckets env ls bucketed)) = length bucketed"
proof (cases "observed env")
  case True
  have "sum_list (map snd (group_buckets env ls bucketed)) =
        sum_list (map snd (groupby_size (\<lambda>rc. map_option (\<lambda>c. (c, region (fst rc))) (snd rc)) bucketed))"
    using True by (simp add: group_buckets_def comp_def)
  also have "\<dots> = length (filter (\<lambda>rc. map_option (\<lambda>c. (c, region (fst rc))) (snd rc) \<noteq> None) bucketed)"
    by (rule groupby_size_total)
  also have "\<dots> = length bucketed"
    using assms by (intro arg_cong [where f = length]) (auto simp: filter_id_conv)
  finally show ?thesis .
next
  case False
  have "sum_list (map snd (group_buckets env ls bucketed)) =
        sum_list (map snd (groupby_size_unobserved (length ls) snd (\<lambda>rc. region (fst rc)) bucketed))"
    using False by (simp add: group_buckets_def comp_def)
  also have "\<dots> = length (filter (\<lambda>rc. \<exists>c<length ls. snd rc = Some c) bucketed)"
    by (rule groupby_size_unobserved_total)
  also have "\<dots> = length bucketed"
    using assms by (intro arg_cong [where f = length]) (auto simp: filter_id_conv)
  finally show ?thesis .
qed

lemma sb_grouped_total:
  assumes "sb_grouped env dff = Inr g"
  shows "sum_list (map snd g) = length (sb_data dff)"
proof -
  have ne: "sb_data dff \<noteq> []"
    using assms by (auto simp: sb_grouped_def casualty_range_empty)
  let ?b = "map (\<lambda>r. (r, cut_code (bins (max_cas dff)) (total_casualties r))) (sb_data dff)"
  have g: "g = group_buckets env (labels (bins (max_cas dff))) ?b"
    using assms by (simp add: sb_grouped_def casualty_range_ok [OF ne])
  have "\<forall>rc\<in>set ?b. \<exists>c<length (labels (bins (max_cas dff))). snd rc = Some c"
    using sb_data_bucket [of _ dff] by auto
  from group_buckets_total [OF this] show ?thesis by (simp add: g)
qed

text \<open>
  C7. The counts of a count-based aggregate add up to the number of filtered rows the
  aggregate takes in: all rows for the geographic count and for the count by year and
  region, the rows with both \<^verbatim>\<open>Means of attack\<close> and \<^verbatim>\<open>Attack context\<close> present for
  the attack taxonomy, and, whenever the casualty distribution is produced, the rows
  with \<^verbatim>\<open>total_casualties > 0\<close> for it.
\<close>
theorem count_aggregates_total:
  "sum_list (map snd (heatdata dff)) = length dff \<and>
   sum_list (map snd (tree_grouped dff)) =
     length (filter (\<lambda>r. means_of_attack r \<noteq> None \<and> attack_context r \<noteq> None) dff) \<and>
   sum_list (map snd (yearwise dff)) = length dff \<and>
   (\<forall>g. sb_grouped env dff = Inr g \<longrightarrow>
      sum_list (map snd g) = length (filter (\<lambda>r. total_casualties r > 0) dff))"
proof -
  have "sum_list (map snd (heatdata dff)) = length dff"
    by (simp add: heatdata_def groupby_size_total)
  moreover have "sum_list (map snd (tree_grouped dff)) =
     length (filter (\<lambda>r. means_of_attack r \<noteq> None \<and> attack_context r \<noteq> None) dff)"
  proof -
    have "\<forall>r\<in>set (treedata dff). taxonomy_key r \<noteq> None"
      by (auto simp: treedata_def taxonomy_key_def)
    then have "filter (\<lambda>r. taxonomy_key r \<noteq> None) (treedata dff) = treedata dff"
      by (rule filter_True)
    then have "sum_list (map snd (tree_grouped dff)) = length (treedata dff)"
      by (simp only: tree_grouped_def groupby_size_total)
    then show ?thesis by (simp only: treedata_def)
  qed
  moreover have "sum_list (map snd (yearwise dff)) = length dff"
    using groupby_size_total [of "\<lambda>r. Some (year r, region r)" dff]
    by (simp add: yearwise_def groupby_size_def)
  moreover have "\<forall>g. sb_grouped env dff = Inr g \<longrightarrow>
      sum_list (map snd g) = length (filter (\<lambda>r. total_casualties r > 0) dff)"
    using sb_grouped_total [of env dff] by (simp add: sb_data_def)
  ultimately show ?thesis by blast
qed

theorem count_aggregates_total_witness:
  "sb_grouped example_env [example_row ''Italy'' ''X'' 3, example_row ''Chad'' ''Y'' 0] =
     Inr [((''1'', ''X''), 0), ((''2'' @ en_dash @ ''5'', ''X''), 1)] \<and>
   sum_list (map snd [((''1'', ''X''), 0::nat), ((''2'' @ en_dash @ ''5'', ''X''), 1)]) =
     length (filter (\<lambda>r. total_casualties r > 0)
       [example_row ''Italy'' ''X'' 3, example_row ''Chad'' ''Y'' 0])"
proof -
  have e: "sb_grouped example_env [example_row ''Italy'' ''X'' 3, example_row ''Chad'' ''Y'' 0] =
     Inr [((''1'', ''X''), 0), ((''2'' @ en_dash @ ''5'', ''X''), 1)]"
    by code_simp
  with count_aggregates_total
    [of "[example_row ''Italy'' ''X'' 3, example_row ''Chad'' ''Y'' 0]" example_env]
  show ?thesis by blast
qed

text \<open>
  C1. The claim is that an empty filtered table gives empty aggregates and no insight,
  without an error. The callback raises instead: with no row, \<^verbatim>\<open>max_cas\<close> is NaN, no
  edge is kept, and \<^verbatim>\<open>pd.cut\<close> fails on the empty list of edges. Were the cut to pass,
  \<^verbatim>\<open>.iloc[0]\<close> on the empty geographic count would raise as well.
\<close>
theorem empty_filtered_table_raises:
  assumes "region_filter df sel = []"
  shows "update_visuals env df sel = Inl IndexError \<and>
         (is_argsort (argsort env) \<longrightarrow> top_country env (heatdata (region_filter df sel)) = Inl IndexError)"
proof -
  have "sb_data (region_filter df sel) = []" using assms by (simp add: sb_data_def)
  then have "casualty_range (region_filter df sel) = Inl IndexError" by (rule casualty_range_empty)
  then have "update_visuals env df sel = Inl IndexError"
    by (simp add: update_visuals_def sb_grouped_def)
  moreover have "heatdata [] = []"
    by (simp add: heatdata_def groupby_size_def groupby_agg_def group_keys_def List.map_filter_def)
  then have "is_argsort (argsort env) \<longrightarrow> top_country env (heatdata (region_filter df sel)) = Inl IndexError"
    using assms by (simp add: top_country_def sort_values_desc_empty)
  ultimately show ?thesis by blast
qed

theorem empty_filtered_table_raises_witness:
  "region_filter [example_row ''Italy'' ''X'' 3] (Some ''Y'') = [] \<and>
   update_visuals example_env [example_row ''Italy'' ''X'' 3] (Some ''Y'') = Inl IndexError \<and>
   is_argsort (argsort example_env) \<and>
   top_country example_env (heatdata (region_filter [example_row ''Italy'' ''X'' 3] (Some ''Y''))) = Inl IndexError"
proof -
  have e: "region_filter [example_row ''Italy'' ''X'' 3] (Some ''Y'') = []"
    by (simp add: region_filter_def example_row_def)
  have a: "is_argsort (argsort example_env)" by (simp add: example_env_def stable_argsort_ok)
  from empty_filtered_table_raises [OF e, of example_env] e a show ?thesis by blast
qed

text \<open>
  C2. The claim is that a non-empty filtered table whose rows all have
  \<^verbatim>\<open>total_casualties = 0\<close> gives an empty casualty distribution without an error, and a
  geographic count over all rows. The subset \<^verbatim>\<open>sb_data\<close> is empty, no edge is kept and
  \<^verbatim>\<open>pd.cut\<close> raises, so the callback returns nothing; the geographic count of that
  table, taken alone, does count every row.
\<close>
theorem zero_casualty_table_raises:
  assumes "dff = region_filter df sel" "dff \<noteq> []" "\<forall>r\<in>set dff. total_casualties r = 0"
  shows "sb_data dff = [] \<and> bins (max_cas dff) = [] \<and> casualty_range dff = Inl IndexError \<and>
         update_visuals env df sel = Inl IndexError \<and>
         sum_list (map snd (heatdata dff)) = length dff"
proof -
  have e: "sb_data dff = []" using assms(3) by (auto simp: sb_data_def filter_empty_conv)
  then have b: "bins (max_cas dff) = []" by (simp add: max_cas_None bins_None)
  have c: "casualty_range dff = Inl IndexError" using e by (rule casualty_range_empty)
  then have "update_visuals env df sel = Inl IndexError"
    using assms(1) by (simp add: update_visuals_def sb_grouped_def)
  moreover have "sum_list (map snd (heatdata dff)) = length dff"
    by (simp add: heatdata_def groupby_size_total)
  ultimately show ?thesis using e b c by blast
qed

theorem zero_casualty_table_raises_witness:
  "[example_row ''Italy'' ''X'' 0] = region_filter [example_row ''Italy'' ''X'' 0] None \<and>
   [example_row ''Italy'' ''X'' 0] \<noteq> [] \<and>
   total_casualties (example_row ''Italy'' ''X'' 0) = 0 \<and>
   update_visuals example_env [example_row ''Italy'' ''X'' 0] None = Inl IndexError \<and>
   sum_list (map snd (heatdata [example_row ''Italy'' ''X'' 0])) = 1"
proof -
  have e: "[example_row ''Italy'' ''X'' 0] = region_filter [example_row ''Italy'' ''X'' 0] None"
    by (simp add: region_filter_def)
  have z: "\<forall>r\<in>set [example_row ''Italy'' ''X'' 0]. total_casualties r = 0"
    by (simp add: example_row_def)
  from zero_casualty_table_raises [OF e _ z, of example_env] z show ?thesis
    using e by simp
qed






























lemma groupby_size_mem:
  "(k, n) \<in> set (groupby_size key rows) \<longleftrightarrow>
     (\<exists>r\<in>set rows. key r = Some k) \<and> n = length (filter (\<lambda>r. key r = Some k) rows)"
  by (simp add: groupby_size_def groupby_agg_mem group_rows_def)

lemma groupby_size_pos: "(k, n) \<in> set (groupby_size key rows) \<Longrightarrow> 0 < n"
  by (auto simp: groupby_size_mem filter_empty_conv)











end
